theory Spec2Isabelle
  imports Main
begin

section \<open>Adjacency check and connective-initial extraction of pdtb2_functions.py\<close>

subsection \<open>Errors of the Python runtime\<close>

text \<open>
  \<open>max\<close> and \<open>min\<close> of an empty sequence raise \<open>ValueError\<close>; the \<open>search\<close> method of a
  compiled pattern raises \<open>TypeError\<close> on an argument that is not a string (here: \<open>None\<close>).
  The source catches neither. The specification's name for the first one is
  \<open>InvalidRecordError\<close>.
\<close>

datatype error = ValueError | TypeError

fun py_max :: "int list \<Rightarrow> error + int" where
  "py_max [] = Inl ValueError"
| "py_max (x # xs) = Inr (fold max xs x)"

fun py_min :: "int list \<Rightarrow> error + int" where
  "py_min [] = Inl ValueError"
| "py_min (x # xs) = Inr (fold min xs x)"

text \<open>Truth value of an attribute that is \<open>None\<close> or a string: only a non-empty string is true.\<close>

fun truthy :: "string option \<Rightarrow> bool" where
  "truthy None = False"
| "truthy (Some s) = (s \<noteq> [])"

text \<open>
  A compiled pattern is taken as the predicate \<open>sem_re\<close> on strings that tells whether
  the pattern is found somewhere in the string; \<open>sem_re.search(x)\<close> with \<open>x = None\<close>
  raises before any matching happens.
\<close>

fun re_search :: "(string \<Rightarrow> bool) \<Rightarrow> string option \<Rightarrow> error + bool" where
  "re_search sem_re None = Inl TypeError"
| "re_search sem_re (Some s) = Inr (sem_re s)"

subsection \<open>The datum\<close>

text \<open>
  Modelled from the spec: the class \<open>Datum\<close> (module \<open>pdtb2\<close>, not among the sources here).
  A span is a pair of character offsets, a span list an ordered sequence of spans; an
  attribute without a value is \<open>None\<close>. The two methods the extraction calls,
  \<open>arg1_precedes_arg2()\<close> and \<open>conn_str(distinguish_implicit)\<close>, are parameters: a datum is
  immutable, so each is held as the value the call returns. \<open>Section\<close> and \<open>FileNumber\<close> are
  held as the text that the format directive \<open>%s\<close> renders.
\<close>

type_synonym span = "int \<times> int"

record datum =
  Relation :: string
  Arg1_SpanList :: "span list"
  Arg2_SpanList :: "span list"
  Connective_SpanList :: "span list"
  Arg1_RawText :: "string option"
  Arg2_RawText :: "string option"
  Sup1_RawText :: "string option"
  Sup2_RawText :: "string option"
  ConnHead :: "string option"
  Connective_RawText :: "string option"
  Conn2 :: "string option"
  ConnHeadSemClass1 :: "string option"
  Section :: string
  FileNumber :: string
  arg1_precedes_arg2 :: bool
  conn_str :: "bool \<Rightarrow> string option"

text \<open>The comprehension \<open>[x for span in spans for x in span]\<close>.\<close>

fun flatten :: "span list \<Rightarrow> int list" where
  "flatten [] = []"
| "flatten ((s, e) # spans) = s # e # flatten spans"

subsection \<open>\<open>adjacency_check\<close>\<close>

definition adjacency_check :: "datum \<Rightarrow> error + bool" where
  "adjacency_check datum =
     (if \<not> arg1_precedes_arg2 datum then Inr False
      else
        case py_max (flatten (Arg1_SpanList datum)) of
          Inl err \<Rightarrow> Inl err
        | Inr arg1_finish \<Rightarrow>
        case py_min (flatten (Arg2_SpanList datum)) of
          Inl err \<Rightarrow> Inl err
        | Inr arg2_start \<Rightarrow>
        if Relation datum = ''Implicit'' then
          (if arg2_start - arg1_finish \<le> 3 then Inr True else Inr False)
        else
          let conn_indices = flatten (Connective_SpanList datum) in
          case py_min conn_indices of
            Inl err \<Rightarrow> Inl err
          | Inr conn_start \<Rightarrow>
          case py_max conn_indices of
            Inl err \<Rightarrow> Inl err
          | Inr conn_finish \<Rightarrow>
          if conn_start - arg1_finish \<le> 3 \<and> arg2_start - conn_finish \<le> 3
          then Inr True else Inr False)"

subsection \<open>\<open>connective_initial\<close>\<close>

text \<open>
  A value of the dictionary \<open>keepers\<close> is a list of six attributes, each a string or
  \<open>None\<close>. The dictionary keeps its keys in the order of their first insertion; assigning
  to a key that is present replaces the value in place.
\<close>

type_synonym row = "string option list"

fun dict_set :: "(string \<times> row) list \<Rightarrow> string \<Rightarrow> row \<Rightarrow> (string \<times> row) list" where
  "dict_set [] k v = [(k, v)]"
| "dict_set ((k', v') # kvs) k v =
     (if k' = k then (k, v) # kvs else (k', v') # dict_set kvs k v)"

text \<open>What the loop changes: the dictionary and the lines printed so far.\<close>

record state =
  keepers :: "(string \<times> row) list"
  stdout :: "string list"

text \<open>The state before the first datum: \<open>keepers = {}\<close>, nothing printed.\<close>

definition initial :: state where
  "initial = \<lparr>keepers = [], stdout = []\<rparr>"

text \<open>The item id, \<open>"%s/%s" % (datum.Section, datum.FileNumber)\<close>.\<close>

definition item_id :: "datum \<Rightarrow> string" where
  "item_id datum = Section datum @ ''/'' @ FileNumber datum"

text \<open>The body of the \<open>for\<close> loop, for one datum.\<close>

definition loop_body :: "(string \<Rightarrow> bool) \<Rightarrow> state \<Rightarrow> datum \<Rightarrow> error + state" where
  "loop_body sem_re st datum =
     (let rel = Relation datum in
      if rel \<in> set [''Implicit'', ''Explicit'']
         \<and> \<not> truthy (Sup1_RawText datum) \<and> \<not> truthy (Sup2_RawText datum)
      then
        case re_search sem_re (ConnHeadSemClass1 datum) of
          Inl err \<Rightarrow> Inl err
        | Inr found \<Rightarrow>
        if found then
          case adjacency_check datum of
            Inl err \<Rightarrow> Inl err
          | Inr adjacent \<Rightarrow>
          if adjacent then
            if (rel = ''Explicit'' \<and> ConnHead datum = Connective_RawText datum)
               \<or> (rel = ''Implicit'' \<and> \<not> truthy (Conn2 datum))
            then
              let itemId = item_id datum;
                  conn = conn_str datum False
              in Inr (st\<lparr>stdout := stdout st @ [itemId],
                        keepers := dict_set (keepers st) itemId
                          [Some itemId, Some rel, ConnHeadSemClass1 datum,
                           Arg1_RawText datum, conn, Arg2_RawText datum]\<rparr>)
            else Inr st
          else Inr st
        else Inr st
      else Inr st)"

fun run_loop :: "(string \<Rightarrow> bool) \<Rightarrow> state \<Rightarrow> datum list \<Rightarrow> error + state" where
  "run_loop sem_re st [] = Inr st"
| "run_loop sem_re st (datum # rest) =
     (case loop_body sem_re st datum of
        Inl err \<Rightarrow> Inl err
      | Inr st' \<Rightarrow> run_loop sem_re st' rest)"

definition csv_header :: row where
  "csv_header = [Some ''ItemId'', Some ''Relation'', Some ''ConnHeadSemClass1'',
                 Some ''Arg1'', Some ''Connective'', Some ''Arg2'']"

text \<open>
  The whole function on the data the corpus reader yields: the rows written to the
  output file and the lines printed, or the error that ended the run.
\<close>

definition connective_initial :: "(string \<Rightarrow> bool) \<Rightarrow> datum list \<Rightarrow> error + (row list \<times> string list)" where
  "connective_initial sem_re corpus =
     (case run_loop sem_re initial corpus of
        Inl err \<Rightarrow> Inl err
      | Inr st \<Rightarrow> Inr (csv_header # map snd (keepers st), stdout st @ [''CSV created.'']))"

subsection \<open>Notions the properties are stated with\<close>

text \<open>
  The offsets of a span list, in the specification's words: the start and the end of
  every span. The code reaches them through \<open>flatten\<close>.
\<close>

definition offsets :: "span list \<Rightarrow> int set" where
  "offsets spans = fst ` set spans \<union> snd ` set spans"

text \<open>The two aggregates of a span list; a list without spans has neither.\<close>

definition greatest_offset :: "span list \<Rightarrow> int option" where
  "greatest_offset spans = (if spans = [] then None else Some (Max (offsets spans)))"

definition least_offset :: "span list \<Rightarrow> int option" where
  "least_offset spans = (if spans = [] then None else Some (Min (offsets spans)))"

text \<open>
  The path condition of the assignment to \<open>keepers\<close>: every test of the loop body
  succeeds and no call raises.
\<close>

definition qualifies :: "(string \<Rightarrow> bool) \<Rightarrow> datum \<Rightarrow> bool" where
  "qualifies sem_re datum \<longleftrightarrow>
     Relation datum \<in> set [''Implicit'', ''Explicit'']
     \<and> \<not> truthy (Sup1_RawText datum) \<and> \<not> truthy (Sup2_RawText datum)
     \<and> re_search sem_re (ConnHeadSemClass1 datum) = Inr True
     \<and> adjacency_check datum = Inr True
     \<and> ((Relation datum = ''Explicit'' \<and> ConnHead datum = Connective_RawText datum)
        \<or> (Relation datum = ''Implicit'' \<and> \<not> truthy (Conn2 datum)))"

text \<open>The value stored for a datum that qualifies.\<close>

definition keeper_row :: "datum \<Rightarrow> row" where
  "keeper_row datum =
     [Some (item_id datum), Some (Relation datum), ConnHeadSemClass1 datum,
      Arg1_RawText datum, conn_str datum False, Arg2_RawText datum]"

subsection \<open>Example data\<close>

text \<open>A pattern of literal characters only: it is found where it is a prefix of a suffix.\<close>

fun literal_search :: "string \<Rightarrow> string \<Rightarrow> bool" where
  "literal_search pat [] = (pat = [])"
| "literal_search pat (c # cs) = (take (length pat) (c # cs) = pat \<or> literal_search pat cs)"

definition sem_Contingency :: "string \<Rightarrow> bool" where
  "sem_Contingency = literal_search ''Contingency''"

text \<open>The end-to-end scenario of the specification: an Explicit relation, gaps 1 and 1.\<close>

definition ex_explicit :: datum where
  "ex_explicit =
     \<lparr>Relation = ''Explicit'',
      Arg1_SpanList = [(0, 10)], Arg2_SpanList = [(16, 30)], Connective_SpanList = [(11, 15)],
      Arg1_RawText = Some ''It rained'', Arg2_RawText = Some ''the match was off'',
      Sup1_RawText = None, Sup2_RawText = None,
      ConnHead = Some ''because'', Connective_RawText = Some ''because'', Conn2 = None,
      ConnHeadSemClass1 = Some ''Contingency.Cause.Reason'',
      Section = ''0'', FileNumber = ''3'',
      arg1_precedes_arg2 = True,
      conn_str = (\<lambda>distinguish_implicit. Some ''because'')\<rparr>"

text \<open>An Implicit relation with discontinuous arguments and no connective span; gap 2.\<close>

definition ex_implicit :: datum where
  "ex_implicit =
     ex_explicit\<lparr>Relation := ''Implicit'',
       Arg1_SpanList := [(0, 4), (6, 10)], Arg2_SpanList := [(12, 20), (25, 30)],
       Connective_SpanList := [], ConnHead := None, Connective_RawText := None,
       Arg1_RawText := Some ''The pitch was wet'', Arg2_RawText := Some ''nobody played'',
       ConnHeadSemClass1 := Some ''Contingency.Cause.Result'',
       conn_str := (\<lambda>distinguish_implicit. Some ''so'')\<rparr>"

text \<open>The same Explicit relation in another file of the section.\<close>

definition ex_other :: datum where
  "ex_other = ex_explicit\<lparr>FileNumber := ''4''\<rparr>"

text \<open>An Explicit relation without a semantic class, and an entity relation, which has none.\<close>

definition ex_noclass :: datum where
  "ex_noclass = ex_explicit\<lparr>ConnHeadSemClass1 := None\<rparr>"

definition ex_entrel :: datum where
  "ex_entrel =
     ex_explicit\<lparr>Relation := ''EntRel'', Connective_SpanList := [], ConnHead := None,
       Connective_RawText := None, ConnHeadSemClass1 := None,
       conn_str := (\<lambda>distinguish_implicit. None)\<rparr>"

text \<open>Supplementary text on Arg1, everything else as in the scenario.\<close>

definition ex_sup :: datum where
  "ex_sup = ex_explicit\<lparr>Sup1_RawText := Some ''he said''\<rparr>"

text \<open>A corpus of three data, the state after its first two data and the state after it.\<close>

definition ex_corpus :: "datum list" where
  "ex_corpus = [ex_explicit, ex_other, ex_implicit]"

definition ex_middle :: state where
  "ex_middle =
     \<lparr>keepers =
        [(''0/3'', [Some ''0/3'', Some ''Explicit'', Some ''Contingency.Cause.Reason'',
                    Some ''It rained'', Some ''because'', Some ''the match was off'']),
         (''0/4'', [Some ''0/4'', Some ''Explicit'', Some ''Contingency.Cause.Reason'',
                    Some ''It rained'', Some ''because'', Some ''the match was off''])],
      stdout = [''0/3'', ''0/4'']\<rparr>"

definition ex_final :: state where
  "ex_final =
     \<lparr>keepers =
        [(''0/3'', [Some ''0/3'', Some ''Implicit'', Some ''Contingency.Cause.Result'',
                    Some ''The pitch was wet'', Some ''so'', Some ''nobody played'']),
         (''0/4'', [Some ''0/4'', Some ''Explicit'', Some ''Contingency.Cause.Reason'',
                    Some ''It rained'', Some ''because'', Some ''the match was off''])],
      stdout = [''0/3'', ''0/4'', ''0/3'']\<rparr>"

text \<open>An Explicit relation whose connective starts inside Arg1; gaps -2 and 1.\<close>

definition ex_overlap :: datum where
  "ex_overlap = ex_explicit\<lparr>Connective_SpanList := [(8, 12)], Arg2_SpanList := [(13, 30)]\<rparr>"

section \<open>Properties\<close>

subsection \<open>Aggregates\<close>

lemma set_flatten: "set (flatten spans) = offsets spans"
  by (induction spans rule: flatten.induct) (auto simp: offsets_def)

lemma flatten_Nil_iff: "flatten spans = [] \<longleftrightarrow> spans = []"
  by (cases spans rule: flatten.cases) simp_all

lemma py_max_Max: "xs \<noteq> [] \<Longrightarrow> py_max xs = Inr (Max (set xs))"
proof (cases xs)
  case (Cons x rest)
  have "Max (set (x # rest)) = fold max rest x" by (rule Max.set_eq_fold)
  with Cons show ?thesis by simp
qed simp

lemma py_min_Min: "xs \<noteq> [] \<Longrightarrow> py_min xs = Inr (Min (set xs))"
proof (cases xs)
  case (Cons x rest)
  have "Min (set (x # rest)) = fold min rest x" by (rule Min.set_eq_fold)
  with Cons show ?thesis by simp
qed simp

lemma span_max: "spans \<noteq> [] \<Longrightarrow> py_max (flatten spans) = Inr (Max (offsets spans))"
  by (simp add: py_max_Max flatten_Nil_iff set_flatten)

lemma span_min: "spans \<noteq> [] \<Longrightarrow> py_min (flatten spans) = Inr (Min (offsets spans))"
  by (simp add: py_min_Min flatten_Nil_iff set_flatten)

lemma py_max_greatest:
  "py_max (flatten spans) = (case greatest_offset spans of None \<Rightarrow> Inl ValueError | Some m \<Rightarrow> Inr m)"
  by (simp add: greatest_offset_def span_max)

lemma py_min_least:
  "py_min (flatten spans) = (case least_offset spans of None \<Rightarrow> Inl ValueError | Some m \<Rightarrow> Inr m)"
  by (simp add: least_offset_def span_min)

subsection \<open>The adjacency check\<close>

text \<open>
  C1. A datum whose relation is Implicit and whose Arg1 precedes Arg2 is adjacent exactly
  when the least offset of Arg2 minus the greatest offset of Arg1 is at most 3 (both
  arguments having at least one span, so that the two offsets exist), and the answer is
  the same whatever the connective span list is.
\<close>

theorem implicit_adjacency:
  assumes "Relation d = ''Implicit''" and "arg1_precedes_arg2 d"
  shows "(Arg1_SpanList d \<noteq> [] \<and> Arg2_SpanList d \<noteq> [] \<longrightarrow>
          adjacency_check d
            = Inr (Min (offsets (Arg2_SpanList d)) - Max (offsets (Arg1_SpanList d)) \<le> 3))
       \<and> adjacency_check (d\<lparr>Connective_SpanList := c\<rparr>) = adjacency_check d"
  using assms by (simp add: adjacency_check_def span_max span_min split: sum.splits)

theorem implicit_adjacency_witness:
  "adjacency_check ex_implicit = Inr True
   \<and> adjacency_check (ex_implicit\<lparr>Connective_SpanList := [(100, 200)]\<rparr>) = Inr True
   \<and> adjacency_check (ex_implicit\<lparr>Arg2_SpanList := [(14, 20), (25, 30)]\<rparr>) = Inr False"
proof -
  let ?far = "ex_implicit\<lparr>Arg2_SpanList := [(14, 20), (25, 30)]\<rparr>"
  have rel: "Relation ex_implicit = ''Implicit''" "Relation ?far = ''Implicit''"
    by (simp_all add: ex_implicit_def)
  have pre: "arg1_precedes_arg2 ex_implicit" "arg1_precedes_arg2 ?far"
    by (simp_all add: ex_implicit_def ex_explicit_def)
  from implicit_adjacency [OF rel(1) pre(1), of "[(100, 200)]"]
       implicit_adjacency [OF rel(2) pre(2), of "[]"]
  show ?thesis
    by (simp add: ex_implicit_def ex_explicit_def offsets_def)
qed

text \<open>
  C2. A datum whose relation is not Implicit, whose Arg1 precedes Arg2 and whose three
  span lists are non-empty is adjacent exactly when the connective starts at most 3 after
  the greatest offset of Arg1 and Arg2 starts at most 3 after the greatest offset of the
  connective.
\<close>

theorem explicit_adjacency:
  assumes "Relation d \<noteq> ''Implicit''" and "arg1_precedes_arg2 d"
    and "Arg1_SpanList d \<noteq> []" and "Arg2_SpanList d \<noteq> []" and "Connective_SpanList d \<noteq> []"
  shows "adjacency_check d
           = Inr (Min (offsets (Connective_SpanList d)) - Max (offsets (Arg1_SpanList d)) \<le> 3
                \<and> Min (offsets (Arg2_SpanList d)) - Max (offsets (Connective_SpanList d)) \<le> 3)"
  using assms by (simp add: adjacency_check_def span_max span_min)

theorem explicit_adjacency_witness:
  "adjacency_check ex_explicit = Inr True
   \<and> adjacency_check (ex_explicit\<lparr>Connective_SpanList := [(20, 24)]\<rparr>) = Inr False"
proof -
  let ?late = "ex_explicit\<lparr>Connective_SpanList := [(20, 24)]\<rparr>"
  have rel: "Relation ex_explicit \<noteq> ''Implicit''" "Relation ?late \<noteq> ''Implicit''"
    by (simp_all add: ex_explicit_def)
  have pre: "arg1_precedes_arg2 ex_explicit" "arg1_precedes_arg2 ?late"
    by (simp_all add: ex_explicit_def)
  have ne: "Arg1_SpanList ex_explicit \<noteq> []" "Arg2_SpanList ex_explicit \<noteq> []"
      "Connective_SpanList ex_explicit \<noteq> []"
      "Arg1_SpanList ?late \<noteq> []" "Arg2_SpanList ?late \<noteq> []" "Connective_SpanList ?late \<noteq> []"
    by (simp_all add: ex_explicit_def)
  from explicit_adjacency [OF rel(1) pre(1) ne(1) ne(2) ne(3)]
       explicit_adjacency [OF rel(2) pre(2) ne(4) ne(5) ne(6)]
  show ?thesis
    by (simp add: ex_explicit_def offsets_def)
qed

text \<open>
  C3. When Arg1 does not precede Arg2 the check answers False, whatever the span lists
  hold (empty ones included): it returns before any of them is read, and raises nothing.
\<close>

theorem not_preceding_not_adjacent:
  assumes "\<not> arg1_precedes_arg2 d"
  shows "adjacency_check d = Inr False"
  using assms by (simp add: adjacency_check_def)

theorem not_preceding_not_adjacent_witness:
  "adjacency_check (ex_explicit\<lparr>arg1_precedes_arg2 := False\<rparr>) = Inr False
   \<and> adjacency_check (ex_explicit\<lparr>arg1_precedes_arg2 := False, Arg1_SpanList := [],
        Arg2_SpanList := [], Connective_SpanList := []\<rparr>) = Inr False"
  using not_preceding_not_adjacent [of "ex_explicit\<lparr>arg1_precedes_arg2 := False\<rparr>"]
    not_preceding_not_adjacent [of "ex_explicit\<lparr>arg1_precedes_arg2 := False,
      Arg1_SpanList := [], Arg2_SpanList := [], Connective_SpanList := []\<rparr>"]
  by simp

text \<open>
  C4. When Arg1 precedes Arg2 and a span list the check takes a maximum or minimum of is
  empty (that of Arg1 or of Arg2, and for a relation other than Implicit that of the
  connective), the check raises the error of \<open>max\<close>/\<open>min\<close> on an empty sequence; it
  returns no boolean.
\<close>

theorem empty_span_list_raises:
  assumes "arg1_precedes_arg2 d"
    and "Arg1_SpanList d = [] \<or> Arg2_SpanList d = []
         \<or> (Relation d \<noteq> ''Implicit'' \<and> Connective_SpanList d = [])"
  shows "adjacency_check d = Inl ValueError"
proof (cases "Arg1_SpanList d = []")
  case True
  with assms(1) show ?thesis by (simp add: adjacency_check_def)
next
  case a1: False
  show ?thesis
  proof (cases "Arg2_SpanList d = []")
    case True
    with assms(1) a1 show ?thesis by (simp add: adjacency_check_def span_max)
  next
    case False
    with assms a1 show ?thesis by (simp add: adjacency_check_def span_max span_min)
  qed
qed

theorem empty_span_list_raises_witness:
  "adjacency_check (ex_explicit\<lparr>Connective_SpanList := []\<rparr>) = Inl ValueError
   \<and> adjacency_check (ex_implicit\<lparr>Arg1_SpanList := []\<rparr>) = Inl ValueError
   \<and> adjacency_check (ex_implicit\<lparr>Arg2_SpanList := []\<rparr>) = Inl ValueError"
  using empty_span_list_raises [of "ex_explicit\<lparr>Connective_SpanList := []\<rparr>"]
    empty_span_list_raises [of "ex_implicit\<lparr>Arg1_SpanList := []\<rparr>"]
    empty_span_list_raises [of "ex_implicit\<lparr>Arg2_SpanList := []\<rparr>"]
  by (simp add: ex_explicit_def ex_implicit_def)

text \<open>
  C8. The tolerance bounds a gap from above only. With Arg1 preceding Arg2 and the
  argument span lists non-empty: an Implicit datum whose Arg2 starts before Arg1 ends is
  adjacent; for any other relation with a connective span, a connective that starts before
  Arg1 ends leaves the answer to the other gap alone, and so does an Arg2 that starts
  before the connective ends. Nothing asks a gap to be non-negative.
\<close>

theorem negative_gap_passes:
  assumes "arg1_precedes_arg2 d" and "Arg1_SpanList d \<noteq> []" and "Arg2_SpanList d \<noteq> []"
  shows "(Relation d = ''Implicit''
          \<and> Min (offsets (Arg2_SpanList d)) < Max (offsets (Arg1_SpanList d))
          \<longrightarrow> adjacency_check d = Inr True)
       \<and> (Relation d \<noteq> ''Implicit'' \<and> Connective_SpanList d \<noteq> []
          \<and> Min (offsets (Connective_SpanList d)) < Max (offsets (Arg1_SpanList d))
          \<longrightarrow> adjacency_check d
                = Inr (Min (offsets (Arg2_SpanList d)) - Max (offsets (Connective_SpanList d)) \<le> 3))
       \<and> (Relation d \<noteq> ''Implicit'' \<and> Connective_SpanList d \<noteq> []
          \<and> Min (offsets (Arg2_SpanList d)) < Max (offsets (Connective_SpanList d))
          \<longrightarrow> adjacency_check d
                = Inr (Min (offsets (Connective_SpanList d)) - Max (offsets (Arg1_SpanList d)) \<le> 3))"
  using assms by (simp add: adjacency_check_def span_max span_min)

theorem negative_gap_passes_witness:
  "adjacency_check ex_overlap = Inr True
   \<and> adjacency_check (ex_implicit\<lparr>Arg2_SpanList := [(7, 20)]\<rparr>) = Inr True
   \<and> adjacency_check (ex_explicit\<lparr>Arg2_SpanList := [(13, 30)]\<rparr>) = Inr True"
proof -
  let ?imp = "ex_implicit\<lparr>Arg2_SpanList := [(7, 20)]\<rparr>"
  let ?exp = "ex_explicit\<lparr>Arg2_SpanList := [(13, 30)]\<rparr>"
  have pre: "arg1_precedes_arg2 ex_overlap" "arg1_precedes_arg2 ?imp" "arg1_precedes_arg2 ?exp"
    by (simp_all add: ex_overlap_def ex_implicit_def ex_explicit_def)
  have ne: "Arg1_SpanList ex_overlap \<noteq> []" "Arg2_SpanList ex_overlap \<noteq> []"
      "Arg1_SpanList ?imp \<noteq> []" "Arg2_SpanList ?imp \<noteq> []"
      "Arg1_SpanList ?exp \<noteq> []" "Arg2_SpanList ?exp \<noteq> []"
    by (simp_all add: ex_overlap_def ex_implicit_def ex_explicit_def)
  from negative_gap_passes [OF pre(1) ne(1) ne(2)]
       negative_gap_passes [OF pre(2) ne(3) ne(4)]
       negative_gap_passes [OF pre(3) ne(5) ne(6)]
  show ?thesis
    by (simp add: ex_overlap_def ex_implicit_def ex_explicit_def offsets_def)
qed

text \<open>
  C9. The check reads a datum through \<open>arg1_precedes_arg2\<close>, \<open>Relation\<close>, the greatest
  offset of Arg1, the least offset of Arg2 and, unless the relation is Implicit, the
  least and the greatest offset of the connective: two data that agree on these get the
  same answer (or the same error). Spans inside an argument that change none of these
  offsets, their order and the gaps between them have no effect.
\<close>

theorem adjacency_depends_on_extrema:
  assumes "arg1_precedes_arg2 d1 = arg1_precedes_arg2 d2"
    and "Relation d1 = Relation d2"
    and "greatest_offset (Arg1_SpanList d1) = greatest_offset (Arg1_SpanList d2)"
    and "least_offset (Arg2_SpanList d1) = least_offset (Arg2_SpanList d2)"
    and "Relation d1 \<noteq> ''Implicit'' \<longrightarrow>
           least_offset (Connective_SpanList d1) = least_offset (Connective_SpanList d2)
           \<and> greatest_offset (Connective_SpanList d1) = greatest_offset (Connective_SpanList d2)"
  shows "adjacency_check d1 = adjacency_check d2"
proof (cases "Relation d1 = ''Implicit''")
  case True
  with assms(2) have "Relation d2 = ''Implicit''" by simp
  with True assms(1,3,4) show ?thesis
    by (simp add: adjacency_check_def py_max_greatest py_min_least split: option.splits)
next
  case False
  with assms(2) have "Relation d2 \<noteq> ''Implicit''" by simp
  with False assms(1,3,4,5) show ?thesis
    by (simp add: adjacency_check_def py_max_greatest py_min_least split: option.splits)
qed

theorem adjacency_depends_on_extrema_witness:
  "adjacency_check (ex_implicit\<lparr>Arg1_SpanList := [(6, 10), (2, 3), (0, 4)],
       Arg2_SpanList := [(12, 30)], Connective_SpanList := [(50, 60)]\<rparr>)
     = adjacency_check ex_implicit
   \<and> adjacency_check (ex_explicit\<lparr>Connective_SpanList := [(14, 15), (11, 12), (13, 13)]\<rparr>)
     = adjacency_check ex_explicit"
proof -
  let ?imp = "ex_implicit\<lparr>Arg1_SpanList := [(6, 10), (2, 3), (0, 4)],
       Arg2_SpanList := [(12, 30)], Connective_SpanList := [(50, 60)]\<rparr>"
  let ?exp = "ex_explicit\<lparr>Connective_SpanList := [(14, 15), (11, 12), (13, 13)]\<rparr>"
  have imp: "arg1_precedes_arg2 ?imp = arg1_precedes_arg2 ex_implicit"
      "Relation ?imp = Relation ex_implicit"
      "greatest_offset (Arg1_SpanList ?imp) = greatest_offset (Arg1_SpanList ex_implicit)"
      "least_offset (Arg2_SpanList ?imp) = least_offset (Arg2_SpanList ex_implicit)"
      "Relation ?imp \<noteq> ''Implicit'' \<longrightarrow>
         least_offset (Connective_SpanList ?imp) = least_offset (Connective_SpanList ex_implicit)
         \<and> greatest_offset (Connective_SpanList ?imp)
           = greatest_offset (Connective_SpanList ex_implicit)"
    by (simp_all add: ex_implicit_def ex_explicit_def greatest_offset_def least_offset_def
        offsets_def)
  have exp: "arg1_precedes_arg2 ?exp = arg1_precedes_arg2 ex_explicit"
      "Relation ?exp = Relation ex_explicit"
      "greatest_offset (Arg1_SpanList ?exp) = greatest_offset (Arg1_SpanList ex_explicit)"
      "least_offset (Arg2_SpanList ?exp) = least_offset (Arg2_SpanList ex_explicit)"
      "Relation ?exp \<noteq> ''Implicit'' \<longrightarrow>
         least_offset (Connective_SpanList ?exp) = least_offset (Connective_SpanList ex_explicit)
         \<and> greatest_offset (Connective_SpanList ?exp)
           = greatest_offset (Connective_SpanList ex_explicit)"
    by (simp_all add: ex_explicit_def greatest_offset_def least_offset_def offsets_def)
  from adjacency_depends_on_extrema [OF imp] adjacency_depends_on_extrema [OF exp]
  show ?thesis by (rule conjI)
qed

subsection \<open>The loop of \<open>connective_initial\<close>\<close>

lemma loop_body_qualifies:
  assumes "qualifies sem_re d"
  shows "loop_body sem_re st d
           = Inr (st\<lparr>stdout := stdout st @ [item_id d],
                     keepers := dict_set (keepers st) (item_id d) (keeper_row d)\<rparr>)"
  using assms unfolding qualifies_def loop_body_def keeper_row_def Let_def by simp

lemma loop_body_skips:
  assumes "loop_body sem_re st d = Inr st'" and "\<not> qualifies sem_re d"
  shows "st' = st"
  using assms unfolding qualifies_def loop_body_def Let_def
  by (auto split: if_splits sum.splits)

lemma run_loop_append:
  "run_loop sem_re st (xs @ ys)
     = (case run_loop sem_re st xs of Inl err \<Rightarrow> Inl err | Inr st' \<Rightarrow> run_loop sem_re st' ys)"
  by (induction xs arbitrary: st) (simp_all split: sum.splits)

text \<open>
  C6. A datum with supplementary text on either argument does not pass the tests of the
  loop body, whatever its other attributes are: the body leaves the dictionary and the
  output as they were, and raises nothing.
\<close>

theorem supplementary_text_skipped:
  assumes "truthy (Sup1_RawText d) \<or> truthy (Sup2_RawText d)"
  shows "loop_body sem_re st d = Inr st \<and> \<not> qualifies sem_re d"
  using assms unfolding loop_body_def qualifies_def Let_def by auto

theorem supplementary_text_skipped_witness:
  "qualifies sem_Contingency ex_explicit
   \<and> loop_body sem_Contingency initial ex_sup = Inr initial
   \<and> \<not> qualifies sem_Contingency ex_sup"
proof -
  have sup: "truthy (Sup1_RawText ex_sup) \<or> truthy (Sup2_RawText ex_sup)"
    by (simp add: ex_sup_def)
  have "qualifies sem_Contingency ex_explicit"
    by (simp add: qualifies_def ex_explicit_def sem_Contingency_def adjacency_check_def)
  with supplementary_text_skipped [OF sup] show ?thesis by simp
qed

text \<open>
  C5, as the specification has it, is refuted: an Explicit datum without supplementary
  text and without a semantic class does not count as a datum that fails to match; the body
  raises \<open>TypeError\<close>.
\<close>

theorem absent_class_counterexample:
  "Relation ex_noclass \<in> set [''Implicit'', ''Explicit'']
   \<and> \<not> truthy (Sup1_RawText ex_noclass) \<and> \<not> truthy (Sup2_RawText ex_noclass)
   \<and> ConnHeadSemClass1 ex_noclass = None
   \<and> loop_body sem_Contingency initial ex_noclass \<noteq> Inr initial
   \<and> loop_body sem_Contingency initial ex_noclass = Inl TypeError"
  by (simp add: ex_noclass_def ex_explicit_def loop_body_def)

text \<open>
  C5, amended. For a datum whose relation is Explicit or Implicit and that has no
  supplementary text, an absent semantic class makes the pattern search raise
  \<open>TypeError\<close>: the datum is not stored, the loop stops there, and a run over a corpus
  that holds such a datum ends in an error, with no row written.
\<close>

theorem absent_class_raises:
  assumes "Relation d \<in> set [''Implicit'', ''Explicit'']"
    and "\<not> truthy (Sup1_RawText d)" and "\<not> truthy (Sup2_RawText d)"
    and "ConnHeadSemClass1 d = None"
  shows "loop_body sem_re st d = Inl TypeError
       \<and> \<not> qualifies sem_re d
       \<and> run_loop sem_re st (d # rest) = Inl TypeError
       \<and> (\<exists>err. connective_initial sem_re (before @ d # rest) = Inl err)"
proof -
  have body: "loop_body sem_re st' d = Inl TypeError" for st'
    using assms unfolding loop_body_def Let_def by simp
  have "\<not> qualifies sem_re d"
    using assms(4) by (simp add: qualifies_def)
  moreover have "\<exists>err. run_loop sem_re st' (before @ d # rest) = Inl err" for st'
    by (cases "run_loop sem_re st' before") (simp_all add: run_loop_append body)
  ultimately show ?thesis
    by (simp add: body connective_initial_def split: sum.splits) (metis sum.distinct(1))
qed

theorem absent_class_raises_witness:
  "loop_body sem_Contingency initial ex_noclass = Inl TypeError
   \<and> run_loop sem_Contingency initial [ex_noclass, ex_explicit] = Inl TypeError
   \<and> (\<exists>err. connective_initial sem_Contingency [ex_explicit, ex_noclass, ex_other] = Inl err)"
proof -
  have h: "Relation ex_noclass \<in> set [''Implicit'', ''Explicit'']"
      "\<not> truthy (Sup1_RawText ex_noclass)" "\<not> truthy (Sup2_RawText ex_noclass)"
      "ConnHeadSemClass1 ex_noclass = None"
    by (simp_all add: ex_noclass_def ex_explicit_def)
  from absent_class_raises [OF h, where sem_re = sem_Contingency and st = initial
      and rest = "[ex_explicit]"]
    absent_class_raises [OF h, where sem_re = sem_Contingency and st = initial
      and before = "[ex_explicit]" and rest = "[ex_other]"]
  show ?thesis by simp
qed

text \<open>
  C10. The pattern search comes after the test of the relation and of the supplementary
  texts. A datum that fails that test (an entity relation or no relation, say) is passed
  over whatever the pattern and whatever its semantic class, an absent one included: the
  body returns the state it got and raises nothing, and leaving the datum out of the corpus
  changes neither the rows written nor the error the run ends in.
\<close>

theorem other_relations_never_searched:
  assumes "\<not> (Relation d \<in> set [''Implicit'', ''Explicit'']
             \<and> \<not> truthy (Sup1_RawText d) \<and> \<not> truthy (Sup2_RawText d))"
  shows "loop_body sem_re st (d\<lparr>ConnHeadSemClass1 := c\<rparr>) = Inr st
       \<and> loop_body sem_re st d = Inr st
       \<and> run_loop sem_re st (d # rest) = run_loop sem_re st rest
       \<and> connective_initial sem_re (before @ d # rest) = connective_initial sem_re (before @ rest)"
proof -
  have body: "loop_body sem_re st' d = Inr st'" for st'
    using assms unfolding loop_body_def Let_def by auto
  have upd: "loop_body sem_re st (d\<lparr>ConnHeadSemClass1 := c\<rparr>) = Inr st"
    using assms unfolding loop_body_def Let_def by auto
  have "run_loop sem_re st' (before @ d # rest) = run_loop sem_re st' (before @ rest)" for st'
    by (simp add: run_loop_append body split: sum.splits)
  then show ?thesis
    by (simp add: body upd connective_initial_def)
qed

theorem other_relations_never_searched_witness:
  "ConnHeadSemClass1 ex_entrel = None
   \<and> loop_body sem_Contingency initial ex_entrel = Inr initial
   \<and> connective_initial sem_Contingency [ex_explicit, ex_entrel, ex_other]
     = connective_initial sem_Contingency [ex_explicit, ex_other]"
proof -
  have h: "\<not> (Relation ex_entrel \<in> set [''Implicit'', ''Explicit'']
             \<and> \<not> truthy (Sup1_RawText ex_entrel) \<and> \<not> truthy (Sup2_RawText ex_entrel))"
    by (simp add: ex_entrel_def)
  have "ConnHeadSemClass1 ex_entrel = None"
    by (simp add: ex_entrel_def)
  with other_relations_never_searched [OF h, where sem_re = sem_Contingency and st = initial
      and before = "[ex_explicit]" and rest = "[ex_other]"]
  show ?thesis by simp
qed

subsection \<open>One entry for each item\<close>

lemma map_of_dict_set: "map_of (dict_set kvs k v) = (map_of kvs)(k \<mapsto> v)"
  by (induction kvs k v rule: dict_set.induct) auto

lemma keys_dict_set: "fst ` set (dict_set kvs k v) = insert k (fst ` set kvs)"
  by (induction kvs k v rule: dict_set.induct) auto

lemma distinct_dict_set:
  "distinct (map fst kvs) \<Longrightarrow> distinct (map fst (dict_set kvs k v))"
  by (induction kvs k v rule: dict_set.induct) (auto simp: keys_dict_set)

lemma one_entry:
  "distinct (map fst kvs) \<Longrightarrow> k \<in> fst ` set kvs \<Longrightarrow> length (filter (\<lambda>e. fst e = k) kvs) = 1"
proof (induction kvs)
  case Nil
  then show ?case by simp
next
  case (Cons e kvs)
  show ?case
  proof (cases "fst e = k")
    case True
    from Cons.prems(1) have "fst e \<notin> fst ` set kvs" by simp
    with True have "fst x \<noteq> k" if "x \<in> set kvs" for x
      using that by blast
    then have "filter (\<lambda>e. fst e = k) kvs = []"
      by (simp add: filter_empty_conv)
    with True show ?thesis by simp
  next
    case False
    with Cons show ?thesis by auto
  qed
qed

lemma loop_body_cases:
  assumes "loop_body sem_re st d = Inr st'"
  shows "(qualifies sem_re d
          \<and> st' = st\<lparr>stdout := stdout st @ [item_id d],
                      keepers := dict_set (keepers st) (item_id d) (keeper_row d)\<rparr>)
       \<or> (\<not> qualifies sem_re d \<and> st' = st)"
proof (cases "qualifies sem_re d")
  case True
  with assms loop_body_qualifies [OF True, of st] show ?thesis by simp
next
  case False
  with assms loop_body_skips show ?thesis by blast
qed

lemma run_loop_distinct:
  "run_loop sem_re st corpus = Inr st' \<Longrightarrow> distinct (map fst (keepers st))
   \<Longrightarrow> distinct (map fst (keepers st'))"
proof (induction corpus arbitrary: st)
  case Nil
  then show ?case by simp
next
  case (Cons d corpus)
  from Cons.prems(1) obtain st1 where
    b: "loop_body sem_re st d = Inr st1" and r: "run_loop sem_re st1 corpus = Inr st'"
    by (auto split: sum.splits)
  from loop_body_cases [OF b] Cons.prems(2) have "distinct (map fst (keepers st1))"
    by (auto simp: distinct_dict_set)
  with Cons.IH [OF r] show ?case .
qed

lemma run_loop_keys:
  "run_loop sem_re st corpus = Inr st'
   \<Longrightarrow> fst ` set (keepers st')
       = fst ` set (keepers st) \<union> item_id ` {d \<in> set corpus. qualifies sem_re d}"
proof (induction corpus arbitrary: st)
  case Nil
  then show ?case by simp
next
  case (Cons d corpus)
  from Cons.prems obtain st1 where
    b: "loop_body sem_re st d = Inr st1" and r: "run_loop sem_re st1 corpus = Inr st'"
    by (auto split: sum.splits)
  from loop_body_cases [OF b]
  have "fst ` set (keepers st1)
          = fst ` set (keepers st) \<union> (if qualifies sem_re d then {item_id d} else {})"
    by (elim disjE conjE) (simp_all add: keys_dict_set)
  moreover have "item_id ` {d' \<in> set (d # corpus). qualifies sem_re d'}
          = (if qualifies sem_re d then {item_id d} else {})
            \<union> item_id ` {d' \<in> set corpus. qualifies sem_re d'}"
    by auto
  ultimately show ?case
    unfolding Cons.IH [OF r] by (simp only: Un_assoc)
qed

lemma run_loop_lookup:
  "run_loop sem_re st corpus = Inr st'
   \<Longrightarrow> map_of (keepers st') k
       = (case rev (filter (\<lambda>d. qualifies sem_re d \<and> item_id d = k) corpus) of
            [] \<Rightarrow> map_of (keepers st) k
          | d # _ \<Rightarrow> Some (keeper_row d))"
proof (induction corpus arbitrary: st)
  case Nil
  then show ?case by simp
next
  case (Cons d corpus)
  from Cons.prems obtain st1 where
    b: "loop_body sem_re st d = Inr st1" and r: "run_loop sem_re st1 corpus = Inr st'"
    by (auto split: sum.splits)
  from loop_body_cases [OF b]
  have st1: "map_of (keepers st1) k
               = (if qualifies sem_re d \<and> item_id d = k then Some (keeper_row d)
                  else map_of (keepers st) k)"
    by (auto simp: map_of_dict_set)
  show ?case
    unfolding Cons.IH [OF r] st1
    by (cases "rev (filter (\<lambda>d. qualifies sem_re d \<and> item_id d = k) corpus)") simp_all
qed

text \<open>
  C7. After a run of the loop that started with an empty dictionary and came to its end,
  every item id with a qualifying datum in the corpus (so also one with two or more of
  them) has exactly one entry in \<open>keepers\<close>, and the entry is the row of the last
  qualifying datum with that id in the order of the corpus. The ids in the dictionary
  are those of the qualifying data, and an id that is in the dictionary after a part of
  the corpus is still there at the end: no entry is removed.
\<close>

theorem last_match_wins:
  assumes "run_loop sem_re initial corpus = Inr st"
    and "d \<in> set corpus" and "qualifies sem_re d"
  shows "length (filter (\<lambda>e. fst e = item_id d) (keepers st)) = 1
       \<and> map_of (keepers st) (item_id d)
         = Some (keeper_row
             (last (filter (\<lambda>d'. qualifies sem_re d' \<and> item_id d' = item_id d) corpus)))
       \<and> fst ` set (keepers st) = item_id ` {d' \<in> set corpus. qualifies sem_re d'}
       \<and> (\<forall>n st_n. run_loop sem_re initial (take n corpus) = Inr st_n
            \<longrightarrow> fst ` set (keepers st_n) \<subseteq> fst ` set (keepers st))"
proof -
  let ?qs = "filter (\<lambda>d'. qualifies sem_re d' \<and> item_id d' = item_id d) corpus"
  have keys: "fst ` set (keepers st) = item_id ` {d' \<in> set corpus. qualifies sem_re d'}"
    using run_loop_keys [OF assms(1)] by (simp add: initial_def)
  have dist: "distinct (map fst (keepers st))"
    using run_loop_distinct [OF assms(1)] by (simp add: initial_def)
  from assms(2,3) have "item_id d \<in> fst ` set (keepers st)"
    unfolding keys by blast
  with dist have one: "length (filter (\<lambda>e. fst e = item_id d) (keepers st)) = 1"
    by (rule one_entry)
  from assms(2,3) have "?qs \<noteq> []"
    by (auto simp: filter_empty_conv)
  then obtain rest where "rev ?qs = last ?qs # rest"
    by (cases "rev ?qs") (simp_all add: last_rev [symmetric] del: rev_filter)
  with run_loop_lookup [OF assms(1), of "item_id d"]
  have latest: "map_of (keepers st) (item_id d) = Some (keeper_row (last ?qs))"
    by simp
  have "fst ` set (keepers st_n) \<subseteq> fst ` set (keepers st)"
    if "run_loop sem_re initial (take n corpus) = Inr st_n" for n st_n
  proof -
    have "fst ` set (keepers st_n) = item_id ` {d' \<in> set (take n corpus). qualifies sem_re d'}"
      using run_loop_keys [OF that] by (simp add: initial_def)
    moreover have "set (take n corpus) \<subseteq> set corpus" by (rule set_take_subset)
    ultimately show ?thesis unfolding keys by blast
  qed
  with one latest keys show ?thesis by blast
qed

theorem last_match_wins_witness:
  "run_loop sem_Contingency initial ex_corpus = Inr ex_final
   \<and> item_id ex_implicit = item_id ex_explicit
   \<and> length (filter (\<lambda>e. fst e = item_id ex_explicit) (keepers ex_final)) = 1
   \<and> map_of (keepers ex_final) (item_id ex_explicit) = Some (keeper_row ex_implicit)
   \<and> keeper_row ex_implicit \<noteq> keeper_row ex_explicit
   \<and> run_loop sem_Contingency initial (take 2 ex_corpus) = Inr ex_middle
   \<and> fst ` set (keepers ex_middle) \<subseteq> fst ` set (keepers ex_final)"
proof -
  have q: "qualifies sem_Contingency ex_explicit" "qualifies sem_Contingency ex_other"
      "qualifies sem_Contingency ex_implicit"
    by (simp_all add: qualifies_def ex_explicit_def ex_other_def ex_implicit_def
        sem_Contingency_def adjacency_check_def)
  have ids: "item_id ex_explicit = ''0/3''" "item_id ex_other = ''0/4''"
      "item_id ex_implicit = ''0/3''"
    by (simp_all add: item_id_def ex_explicit_def ex_other_def ex_implicit_def)
  have rows: "keeper_row ex_implicit
                = [Some ''0/3'', Some ''Implicit'', Some ''Contingency.Cause.Result'',
                   Some ''The pitch was wet'', Some ''so'', Some ''nobody played'']"
      "keeper_row ex_other
         = [Some ''0/4'', Some ''Explicit'', Some ''Contingency.Cause.Reason'',
            Some ''It rained'', Some ''because'', Some ''the match was off'']"
      "keeper_row ex_explicit
         = [Some ''0/3'', Some ''Explicit'', Some ''Contingency.Cause.Reason'',
            Some ''It rained'', Some ''because'', Some ''the match was off'']"
    by (simp_all add: keeper_row_def item_id_def ex_explicit_def ex_other_def ex_implicit_def)
  have run: "run_loop sem_Contingency initial ex_corpus = Inr ex_final"
    by (simp add: ex_corpus_def loop_body_qualifies q ids rows initial_def ex_final_def)
  have mem: "ex_explicit \<in> set ex_corpus"
    by (simp add: ex_corpus_def)
  have part: "run_loop sem_Contingency initial (take 2 ex_corpus) = Inr ex_middle"
    by (simp add: ex_corpus_def loop_body_qualifies q ids rows initial_def ex_middle_def)
  note final = last_match_wins [OF run mem q(1)]
  from final [THEN conjunct1]
  have one: "length (filter (\<lambda>e. fst e = item_id ex_explicit) (keepers ex_final)) = 1" .
  from final [THEN conjunct2, THEN conjunct1]
  have latest: "map_of (keepers ex_final) (item_id ex_explicit) = Some (keeper_row ex_implicit)"
    by (simp add: ex_corpus_def q ids)
  from final [THEN conjunct2, THEN conjunct2, THEN conjunct2] part
  have kept: "fst ` set (keepers ex_middle) \<subseteq> fst ` set (keepers ex_final)"
    by blast
  from run part one latest kept ids rows show ?thesis by simp
qed

end
